theory Spec2Isabelle
  imports Main
begin

section \<open>The filesystem collaborator\<close>

text \<open>
  \<^verbatim>\<open>rat.c\<close> rationalises a list of files: copies with identical content are replaced by
  hard links to one inode. The program talks to the operating system through
  \<^verbatim>\<open>open\<close>/\<^verbatim>\<open>read\<close>, \<^verbatim>\<open>lstat\<close>, \<^verbatim>\<open>rename\<close>, \<^verbatim>\<open>link\<close>, \<^verbatim>\<open>unlink\<close>, \<^verbatim>\<open>time\<close> and
  \<^verbatim>\<open>getpid\<close>. These are not code of the repository; they are modelled here after POSIX,
  for a filesystem that holds regular files only:

  \<^item> a directory entry maps a path to an inode number; an inode has a content and a link
    count (\<^verbatim>\<open>st_nlink\<close>);
  \<^item> every call that can fail takes its verdict from an oracle \<open>fails\<close>, indexed by the
    number of calls made so far, so that every pattern of transient failures
    (permission, cross-device, I/O) is an input of the model; a call also fails when
    POSIX says it must (a missing source name, an existing target of \<^verbatim>\<open>link\<close>);
  \<^item> \<^verbatim>\<open>read\<close> on an open regular file returns the next \<open>min BUFSIZ remaining\<close> bytes and
    does not fail;
  \<^item> every call is logged with its outcome, and every mutating call records the
    filesystem it leaves behind (the observable instants of a run).
\<close>

type_synonym path = string
type_synonym ino = nat

record filesys =
  names :: "path \<Rightarrow> ino option"
  data :: "ino \<Rightarrow> string"
  nlink :: "ino \<Rightarrow> nat"

datatype syscall =
    Open path
  | Lstat path
  | Rename path path
  | Link path path
  | Unlink path

text \<open>
  What the program prints. \<open>Error s\<close> is one call \<^verbatim>\<open>error(1, ...)\<close> whose formatted
  message is \<open>s\<close>: on stderr the program name, a colon, \<open>s\<close>, the system error text in
  brackets and a newline.
\<close>

datatype message = Stdout string | Stderr string | Error string

text \<open>
  The world a run lives in: the filesystem, the two oracles (which calls fail, what
  \<^verbatim>\<open>time\<close> returns after so many calls), the process id, and what the run has done so
  far: its calls, the filesystem after each mutating call, and its output.
\<close>

record world =
  fs :: filesys
  fails :: "nat \<Rightarrow> bool"
  clock :: "nat \<Rightarrow> int"
  pid :: int
  calls :: "(syscall \<times> bool) list"
  snaps :: "filesys list"
  out :: "message list"

record stat =
  st_ino :: ino
  st_nlink :: nat
  st_size :: nat

definition logcall :: "syscall \<Rightarrow> bool \<Rightarrow> world \<Rightarrow> world" where
  "logcall c ok w = w\<lparr>calls := calls w @ [(c, ok)]\<rparr>"

definition mutated :: "syscall \<Rightarrow> bool \<Rightarrow> filesys \<Rightarrow> world \<Rightarrow> world" where
  "mutated c ok f w = w\<lparr>fs := f, calls := calls w @ [(c, ok)], snaps := snaps w @ [f]\<rparr>"

definition emit :: "message \<Rightarrow> world \<Rightarrow> world" where
  "emit m w = w\<lparr>out := out w @ [m]\<rparr>"

definition sys_open :: "path \<Rightarrow> world \<Rightarrow> ino option \<times> world" where
  "sys_open p w =
     (if fails w (length (calls w)) then (None, logcall (Open p) False w)
      else case names (fs w) p of
             None \<Rightarrow> (None, logcall (Open p) False w)
           | Some i \<Rightarrow> (Some i, logcall (Open p) True w))"

definition sys_lstat :: "path \<Rightarrow> world \<Rightarrow> stat option \<times> world" where
  "sys_lstat p w =
     (if fails w (length (calls w)) then (None, logcall (Lstat p) False w)
      else case names (fs w) p of
             None \<Rightarrow> (None, logcall (Lstat p) False w)
           | Some i \<Rightarrow>
               (Some \<lparr>st_ino = i, st_nlink = nlink (fs w) i,
                      st_size = length (data (fs w) i)\<rparr>,
                logcall (Lstat p) True w))"

text \<open>
  \<^verbatim>\<open>rename(old, new)\<close>: atomic; an existing \<open>new\<close> is replaced (its inode loses a link);
  when both names already refer to the same inode nothing happens and the call succeeds.
\<close>

definition sys_rename :: "path \<Rightarrow> path \<Rightarrow> world \<Rightarrow> int \<times> world" where
  "sys_rename old new w =
     (if fails w (length (calls w)) then (- 1, mutated (Rename old new) False (fs w) w)
      else case names (fs w) old of
             None \<Rightarrow> (- 1, mutated (Rename old new) False (fs w) w)
           | Some i \<Rightarrow>
               (case names (fs w) new of
                  None \<Rightarrow>
                    (0, mutated (Rename old new) True
                          ((fs w)\<lparr>names := ((names (fs w))(old := None))(new \<mapsto> i)\<rparr>) w)
                | Some j \<Rightarrow>
                    if j = i then (0, mutated (Rename old new) True (fs w) w)
                    else (0, mutated (Rename old new) True
                          ((fs w)\<lparr>names := ((names (fs w))(old := None))(new \<mapsto> i),
                                  nlink := (nlink (fs w))(j := nlink (fs w) j - 1)\<rparr>) w)))"

definition sys_link :: "path \<Rightarrow> path \<Rightarrow> world \<Rightarrow> int \<times> world" where
  "sys_link existing new w =
     (if fails w (length (calls w)) then (- 1, mutated (Link existing new) False (fs w) w)
      else case names (fs w) existing of
             None \<Rightarrow> (- 1, mutated (Link existing new) False (fs w) w)
           | Some i \<Rightarrow>
               (case names (fs w) new of
                  Some j \<Rightarrow> (- 1, mutated (Link existing new) False (fs w) w)
                | None \<Rightarrow>
                    (0, mutated (Link existing new) True
                          ((fs w)\<lparr>names := (names (fs w))(new \<mapsto> i),
                                  nlink := (nlink (fs w))(i := nlink (fs w) i + 1)\<rparr>) w)))"

definition sys_unlink :: "path \<Rightarrow> world \<Rightarrow> int \<times> world" where
  "sys_unlink p w =
     (if fails w (length (calls w)) then (- 1, mutated (Unlink p) False (fs w) w)
      else case names (fs w) p of
             None \<Rightarrow> (- 1, mutated (Unlink p) False (fs w) w)
           | Some i \<Rightarrow>
               (0, mutated (Unlink p) True
                     ((fs w)\<lparr>names := (names (fs w))(p := None),
                             nlink := (nlink (fs w))(i := nlink (fs w) i - 1)\<rparr>) w))"


section \<open>The program's data\<close>

text \<open>
  The option flags of \<^verbatim>\<open>main\<close> that the functions below read (global variables in the
  source) and \<^verbatim>\<open>BUFSIZ\<close>, the constant of \<^verbatim>\<open><stdio.h>\<close> that sizes the comparison
  buffers.
\<close>

record conf =
  verbose :: bool
  noexec :: bool
  ignore_uid :: bool
  ignore_gid :: bool
  ignore_perms :: bool
  debug :: bool
  BUFSIZ :: nat

text \<open>
  \<^verbatim>\<open>struct info\<close>; the \<^verbatim>\<open>i_next\<close> chain is the list that holds the record.
  \<^verbatim>\<open>struct header\<close> likewise, with its \<^verbatim>\<open>h_info\<close> chain as a list.
\<close>

record info =
  i_name :: path
  i_dir :: "path option"
  i_ino :: ino

record Head =
  h_info :: "info list"
  h_size :: int
  h_dev :: nat
  h_uid :: nat
  h_gid :: nat
  h_perms :: nat

definition newline :: string where
  "newline = [CHR 0x0A]"

definition dquote :: string where
  "dquote = [CHR 0x22]"

definition dbg :: "conf \<Rightarrow> message \<Rightarrow> world \<Rightarrow> world" where
  "dbg cf m w = (if debug cf then emit m w else w)"

section \<open>compare\<close>

text \<open>
  The \<^verbatim>\<open>do ... while (n1 > 0 && n2 > 0)\<close> loop of \<^verbatim>\<open>compare\<close> over the unread rests of
  the two files: both are read in chunks of at most \<^verbatim>\<open>BUFSIZ\<close> bytes.
\<close>

function compare_loop :: "nat \<Rightarrow> string \<Rightarrow> string \<Rightarrow> int" where
  "compare_loop bufsiz r1 r2 =
     (let n1 = min bufsiz (length r1); n2 = min bufsiz (length r2) in
      if n1 \<noteq> n2 then 1
      else if take n1 r1 \<noteq> take n1 r2 then 1
      else if n1 > 0 \<and> n2 > 0 then compare_loop bufsiz (drop n1 r1) (drop n2 r2)
      else 0)"
  by pat_completeness auto
termination
  by (relation "measure (\<lambda>(bufsiz, r1, r2). length r1)")
    (auto simp: min_def split: if_splits)

declare compare_loop.simps [simp del]

definition compare :: "conf \<Rightarrow> path \<Rightarrow> path \<Rightarrow> world \<Rightarrow> int \<times> world" where
  "compare cf file1 file2 w =
     (case sys_open file1 w of
        (None, w1) \<Rightarrow> (- 1, w1)
      | (Some fd1, w1) \<Rightarrow>
          (case sys_open file2 w1 of
             (None, w2) \<Rightarrow> (- 1, w2)
           | (Some fd2, w2) \<Rightarrow>
               (compare_loop (BUFSIZ cf) (data (fs w2) fd1) (data (fs w2) fd2), w2)))"

section \<open>replace2: the link swap\<close>

text \<open>\<^verbatim>\<open>%4.4x\<close> of a value masked with \<^verbatim>\<open>0xffff\<close>: four lower-case hexadecimal digits.\<close>

definition hexdigit :: "nat \<Rightarrow> char" where
  "hexdigit d = ''0123456789abcdef'' ! (d mod 16)"

definition hex4 :: "int \<Rightarrow> string" where
  "hex4 v =
     (let n = nat (v mod 65536) in
      [hexdigit (n div 4096), hexdigit (n div 256), hexdigit (n div 16), hexdigit n])"

text \<open>
  The save name: \<^verbatim>\<open>sprintf(newname, "%s%4.4x%4.4x", to, getpid() & 0xffff, clock & 0xffff)\<close>,
  with the clock as \<^verbatim>\<open>time\<close> gives it at the moment of the call.
\<close>

definition save_name :: "path \<Rightarrow> int \<Rightarrow> int \<Rightarrow> path" where
  "save_name to p c = to @ hex4 p @ hex4 c"

definition sys_time :: "world \<Rightarrow> int" where
  "sys_time w = clock w (length (calls w))"

text \<open>
  \<^verbatim>\<open>replace2(from, to)\<close> replaces the name \<open>to\<close> with a link to \<open>from\<close>. It returns 1 for
  success, 0 for failure and -1 for what its header comment calls catastrophic failure.
  \<^verbatim>\<open>newname\<close> is a buffer of 1024 bytes: a save name that does not fit (with its
  terminating zero) is undefined behaviour in C, the result \<open>None\<close> here.
  \<^verbatim>\<open>raisepriority\<close> and \<^verbatim>\<open>lowerpriority\<close> only change the scheduling priority of the
  process through \<^verbatim>\<open>nice\<close>; the priority is not part of the modelled state.
\<close>

definition replace2 :: "conf \<Rightarrow> path \<Rightarrow> path \<Rightarrow> world \<Rightarrow> (int \<times> world) option" where
  "replace2 cf from to w0 =
     (let w1 = dbg cf (Stdout (''replace2('' @ from @ '', '' @ to @ '')'' @ newline)) w0 in
      if noexec cf then
        Some (1, emit (Stdout (''link '' @ to @ '' to '' @ from @ newline)) w1)
      else if 1024 \<le> length to + 8 then None
      else
        let newname = save_name to (pid w1) (sys_time w1);
            w2 = dbg cf (Stdout (''replace2 - creating save file'' @ newline)) w1
        in case sys_rename to newname w2 of (r1, w3) \<Rightarrow>
          if r1 = - 1 then
            Some (0, dbg cf (Error (''rename('' @ [CHR 0x27] @ to @ [CHR 0x27] @ '', ''
                                      @ [CHR 0x27] @ newname @ [CHR 0x27] @ '')'')) w3)
          else
            let w4 = dbg cf (Stdout (''replace2 - linking'' @ newline)) w3
            in case sys_link from to w4 of (r2, w5) \<Rightarrow>
              if r2 = - 1 then
                (case sys_rename newname to w5 of (r3, w6) \<Rightarrow>
                   if r3 = - 1 then
                     Some (0, dbg cf (Error (''rename('' @ newname @ '', '' @ to @ '')'')) w6)
                   else
                     Some (- 1, emit (Error (''failed to link '' @ to @ '' to '' @ from
                                    @ '' - copy has been left on '' @ newname @ newline)) w6))
              else
                (case sys_unlink newname w5 of (r4, w6) \<Rightarrow>
                   let w7 = (if r4 = - 1
                             then emit (Error (''cannot remove temporary file '' @ newname)) w6
                             else w6);
                       w8 = (if verbose cf
                             then emit (Stdout (''linking '' @ to @ '' to '' @ from @ newline)) w7
                             else w7)
                   in Some (1, w8)))"

section \<open>replace, comb2, combine\<close>

text \<open>
  \<^verbatim>\<open>replace(a, b)\<close> returns 1 when the two records have the same inode number and when
  \<^verbatim>\<open>replace2\<close> has been called, whatever it returned; it returns 0 when \<^verbatim>\<open>compare\<close> does
  not return 0 and when an \<^verbatim>\<open>lstat\<close> fails.
\<close>

definition replace :: "conf \<Rightarrow> info \<Rightarrow> info \<Rightarrow> world \<Rightarrow> (int \<times> world) option" where
  "replace cf a b w0 =
     (let w1 = dbg cf (Stdout (''replace'' @ newline)) w0 in
      if i_ino a = i_ino b then Some (1, w1)
      else case compare cf (i_name a) (i_name b) w1 of (c, w2) \<Rightarrow>
        if c \<noteq> 0 then Some (0, w2)
        else
          (case sys_lstat (i_name a) w2 of
             (None, w3) \<Rightarrow>
               Some (0, emit (Stderr (''Cannot restat '' @ i_name a @ newline)) w3)
           | (Some stbuf_a, w3) \<Rightarrow>
               (case sys_lstat (i_name b) w3 of
                  (None, w4) \<Rightarrow>
                    Some (0, emit (Stderr (''Cannot restat '' @ i_name b @ newline)) w4)
                | (Some stbuf_b, w4) \<Rightarrow>
                    (case (if st_nlink stbuf_b \<le> st_nlink stbuf_a
                           then replace2 cf (i_name a) (i_name b) w4
                           else replace2 cf (i_name b) (i_name a) w4) of
                       None \<Rightarrow> None
                     | Some (r, w5) \<Rightarrow> Some (1, w5)))))"

text \<open>
  \<^verbatim>\<open>comb2(elem, ilist)\<close> returns the members of \<open>ilist\<close> for which \<^verbatim>\<open>replace\<close> returns 0, in
  their order.
\<close>

fun comb2 :: "conf \<Rightarrow> info \<Rightarrow> info list \<Rightarrow> world \<Rightarrow> (info list \<times> world) option" where
  "comb2 cf elem [] w = Some ([], w)"
| "comb2 cf elem (b # x) w =
     (let w1 = dbg cf (Stdout (''comb2 '' @ dquote @ i_name elem @ dquote @ '' ''
                                @ dquote @ i_name b @ dquote @ newline)) w in
      case replace cf elem b w1 of
        None \<Rightarrow> None
      | Some (r, w2) \<Rightarrow>
          if r \<noteq> 0 then comb2 cf elem x w2
          else (case comb2 cf elem x w2 of
                  None \<Rightarrow> None
                | Some (ys, w3) \<Rightarrow> Some (b # ys, w3)))"

lemma comb2_length:
  "comb2 cf elem l w = Some (l', w') \<Longrightarrow> length l' \<le> length l"
proof (induction l arbitrary: w l' w')
  case Nil
  then show ?case by simp
next
  case (Cons b x)
  then show ?case
    by (fastforce simp: Let_def split: option.splits if_splits prod.splits)
qed

text \<open>
  The \<^verbatim>\<open>while\<close> loop of \<^verbatim>\<open>combine\<close>. The source returns nothing; the model returns,
  beside the world, the members the loop leaves unlinked: every member that was
  selected as head of the list, in order, and what remains when the loop stops.
\<close>

function combine_loop :: "conf \<Rightarrow> info list \<Rightarrow> world \<Rightarrow> (info list \<times> world) option" where
  "combine_loop cf [] w = Some ([], w)"
| "combine_loop cf [a] w = Some ([a], w)"
| "combine_loop cf (a # b # x) w =
     (case comb2 cf a (b # x) w of
        None \<Rightarrow> None
      | Some (l', w') \<Rightarrow>
          (case combine_loop cf l' w' of
             None \<Rightarrow> None
           | Some (s, w'') \<Rightarrow> Some (a # s, w'')))"
  by pat_completeness auto
termination
proof (relation "measure (\<lambda>(cf, l, w). length l)")
  show "wf (measure (\<lambda>(cf, l, w). length l))" by simp
next
  fix cf :: conf and a b :: info and x :: "info list" and w :: world and x2 l' w'
  assume "comb2 cf a (b # x) w = Some x2" and "(l', w') = x2"
  then have "comb2 cf a (b # x) w = Some (l', w')" by simp
  from comb2_length [OF this]
  show "((cf, l', w'), (cf, a # b # x, w)) \<in> measure (\<lambda>(cf, l, w). length l)" by simp
qed

definition combine :: "conf \<Rightarrow> info list \<Rightarrow> world \<Rightarrow> world option" where
  "combine cf list w =
     map_option snd (combine_loop cf list (dbg cf (Stdout (''combine'' @ newline)) w))"

text \<open>
  The loop of \<^verbatim>\<open>main\<close> over the classes:
  \<^verbatim>\<open>while (list != NULL) { combine(list->h_info); list = list->h_next; }\<close>.
\<close>

fun combine_all :: "conf \<Rightarrow> Head list \<Rightarrow> world \<Rightarrow> world option" where
  "combine_all cf [] w = Some w"
| "combine_all cf (h # hs) w =
     (case combine cf (h_info h) w of
        None \<Rightarrow> None
      | Some w' \<Rightarrow> combine_all cf hs w')"

section \<open>assoc: the classifier\<close>

text \<open>The test of the \<^verbatim>\<open>for\<close> loop of \<^verbatim>\<open>assoc\<close>: the file \<open>hp\<close> fits the class \<open>listp\<close>.\<close>

definition fits :: "conf \<Rightarrow> Head \<Rightarrow> Head \<Rightarrow> bool" where
  "fits cf hp listp \<longleftrightarrow>
     h_size hp = h_size listp \<and> h_dev hp = h_dev listp \<and>
     (ignore_uid cf \<or> h_uid hp = h_uid listp) \<and>
     (ignore_gid cf \<or> h_gid hp = h_gid listp) \<and>
     (ignore_perms cf \<or> h_perms hp = h_perms listp)"

text \<open>
  The loop either inserts the file into a class and returns, or runs off the end of the
  list. It reads \<^verbatim>\<open>hp->h_info->i_next\<close> (and, when debugging, the names of
  \<^verbatim>\<open>listp->h_info\<close> and \<^verbatim>\<open>hp->h_info\<close>): an empty chain there is a null pointer.
\<close>

datatype 'a scan = Inserted 'a | NoClass | NullDeref

fun assoc_for :: "conf \<Rightarrow> Head \<Rightarrow> Head list \<Rightarrow> world \<Rightarrow> (Head list \<times> world) scan" where
  "assoc_for cf hp [] w = NoClass"
| "assoc_for cf hp (listp # rest) w =
     (if fits cf hp listp then
        (case h_info hp of
           [] \<Rightarrow> NullDeref
         | i # _ \<Rightarrow>
             if debug cf then
               (case h_info listp of
                  [] \<Rightarrow> NullDeref
                | m # _ \<Rightarrow>
                    Inserted (listp\<lparr>h_info := i # h_info listp\<rparr> # rest,
                      emit (Stdout (''associating '' @ i_name m @ '' with '' @ i_name i
                                    @ newline)) w))
             else Inserted (listp\<lparr>h_info := i # h_info listp\<rparr> # rest, w))
      else
        (case assoc_for cf hp rest w of
           Inserted (l, w') \<Rightarrow> Inserted (listp # l, w')
         | NoClass \<Rightarrow> NoClass
         | NullDeref \<Rightarrow> NullDeref))"

text \<open>
  \<^verbatim>\<open>assoc(hp, list)\<close>; \<open>None\<close> is the null pointer dereference. \<^verbatim>\<open>newhead\<close> allocates
  the new class (memory is taken to be sufficient).
\<close>

definition assoc :: "conf \<Rightarrow> Head \<Rightarrow> Head list \<Rightarrow> world \<Rightarrow> (Head list \<times> world) option" where
  "assoc cf hp list w0 =
     (let w1 = dbg cf (Stdout (''assoc'' @ newline)) w0 in
      case assoc_for cf hp list w1 of
        Inserted r \<Rightarrow> Some r
      | NullDeref \<Rightarrow> None
      | NoClass \<Rightarrow>
          Some (\<lparr>h_info = h_info hp, h_size = h_size hp, h_dev = h_dev hp,
                 h_uid = h_uid hp, h_gid = h_gid hp, h_perms = h_perms hp\<rparr> # list, w1))"

text \<open>
  The calls \<^verbatim>\<open>*listp = assoc(&head, *listp)\<close> that \<^verbatim>\<open>enter\<close> makes, one for each file
  that \<^verbatim>\<open>newinfo\<close> accepts, in the order in which the files arrive.
\<close>

fun enter_files :: "conf \<Rightarrow> Head list \<Rightarrow> Head list \<Rightarrow> world \<Rightarrow> (Head list \<times> world) option" where
  "enter_files cf [] list w = Some (list, w)"
| "enter_files cf (hp # hps) list w =
     (case assoc cf hp list w of
        None \<Rightarrow> None
      | Some (list', w') \<Rightarrow> enter_files cf hps list' w')"

section \<open>Notions used in the statements\<close>

text \<open>The two \<^verbatim>\<open>open\<close> calls of \<^verbatim>\<open>compare\<close>: the inodes opened, if both calls succeed.\<close>

definition both_open :: "path \<Rightarrow> path \<Rightarrow> world \<Rightarrow> (ino \<times> ino) option" where
  "both_open file1 file2 w =
     (case sys_open file1 w of
        (None, w1) \<Rightarrow> None
      | (Some fd1, w1) \<Rightarrow>
          (case sys_open file2 w1 of
             (None, w2) \<Rightarrow> None
           | (Some fd2, w2) \<Rightarrow> Some (fd1, fd2)))"

text \<open>The calls that change the filesystem.\<close>

fun is_mutation :: "syscall \<times> bool \<Rightarrow> bool" where
  "is_mutation (Rename old new, ok) = True"
| "is_mutation (Link existing new, ok) = True"
| "is_mutation (Unlink p, ok) = True"
| "is_mutation (Open p, ok) = False"
| "is_mutation (Lstat p, ok) = False"

definition mutations :: "world \<Rightarrow> (syscall \<times> bool) list" where
  "mutations w = filter is_mutation (calls w)"

text \<open>Between two worlds no call has changed the filesystem.\<close>

definition unmutated :: "world \<Rightarrow> world \<Rightarrow> bool" where
  "unmutated w w' \<longleftrightarrow> fs w' = fs w \<and> snaps w' = snaps w \<and> mutations w' = mutations w"

text \<open>No class of the list fits another one.\<close>

fun separate :: "conf \<Rightarrow> Head list \<Rightarrow> bool" where
  "separate cf [] = True"
| "separate cf (c # cs) = ((\<forall>d \<in> set cs. \<not> fits cf c d) \<and> separate cf cs)"





section \<open>Sample inputs\<close>

text \<open>
  The flags as \<^verbatim>\<open>main\<close> initialises them, with the \<^verbatim>\<open>BUFSIZ\<close> of glibc, and as \<^verbatim>\<open>-n\<close>
  sets them. Two files \<open>a\<close> and \<open>b\<close> with the same content \<open>X\<close>, one link each, in a
  world where no call fails; the process id and the clock give the save names the
  suffix \<open>12345678\<close>.
\<close>

definition cf0 :: conf where
  "cf0 = \<lparr>verbose = False, noexec = False, ignore_uid = False, ignore_gid = False,
           ignore_perms = False, debug = False, BUFSIZ = 8192\<rparr>"

definition cf_n :: conf where
  "cf_n = cf0\<lparr>noexec := True, verbose := True\<rparr>"

definition file_a :: info where
  "file_a = \<lparr>i_name = ''a'', i_dir = None, i_ino = 100\<rparr>"

definition file_b :: info where
  "file_b = \<lparr>i_name = ''b'', i_dir = None, i_ino = 101\<rparr>"

definition fs_ab :: filesys where
  "fs_ab = \<lparr>names = [''a'' \<mapsto> 100, ''b'' \<mapsto> 101], data = (\<lambda>i. ''X''),
            nlink = ((\<lambda>i. 0)(100 := 1, 101 := 1))\<rparr>"

definition world_ab :: world where
  "world_ab = \<lparr>fs = fs_ab, fails = (\<lambda>n. False), clock = (\<lambda>n. 0x5678), pid = 0x1234,
               calls = [], snaps = [], out = []\<rparr>"

text \<open>
  The files \<open>a\<close> and \<open>b\<close> as \<^verbatim>\<open>newinfo\<close> hands them to \<^verbatim>\<open>assoc\<close>, and a file \<open>r\<close> of the
  same size that belongs to another user.
\<close>

definition head_a :: Head where
  "head_a = \<lparr>h_info = [file_a], h_size = 1, h_dev = 1, h_uid = 1000, h_gid = 1000,
              h_perms = 420\<rparr>"

definition head_b :: Head where
  "head_b = \<lparr>h_info = [file_b], h_size = 1, h_dev = 1, h_uid = 1000, h_gid = 1000,
              h_perms = 420\<rparr>"

definition head_r :: Head where
  "head_r = \<lparr>h_info = [\<lparr>i_name = ''r'', i_dir = None, i_ino = 7\<rparr>], h_size = 1, h_dev = 1,
              h_uid = 0, h_gid = 0, h_perms = 420\<rparr>"

text \<open>
  The same two files in worlds where calls fail. \<^verbatim>\<open>replace2\<close> makes its calls in the order
  \<^verbatim>\<open>rename(to, newname)\<close>, \<^verbatim>\<open>link(from, to)\<close>, then \<^verbatim>\<open>rename(newname, to)\<close> or
  \<^verbatim>\<open>unlink(newname)\<close>; \<^verbatim>\<open>replace\<close> makes two \<^verbatim>\<open>open\<close> and two \<^verbatim>\<open>lstat\<close> calls before.
\<close>

definition world_link_restore_fail :: world where
  "world_link_restore_fail = world_ab\<lparr>fails := (\<lambda>n. n = 1 \<or> n = 2)\<rparr>"

definition world_link_fail :: world where
  "world_link_fail = world_ab\<lparr>fails := (\<lambda>n. n = 1)\<rparr>"











section \<open>Properties\<close>

subsection \<open>Calls that leave the filesystem alone\<close>

lemma unmutated_refl: "unmutated w w"
  by (simp add: unmutated_def)

lemma unmutated_trans: "unmutated w w1 \<Longrightarrow> unmutated w1 w2 \<Longrightarrow> unmutated w w2"
  by (simp add: unmutated_def)

lemma unmutated_emit: "unmutated w (emit m w)"
  by (simp add: unmutated_def emit_def mutations_def)

lemma unmutated_dbg: "unmutated w (dbg cf m w)"
  by (simp add: unmutated_def dbg_def emit_def mutations_def)

lemma unmutated_open: "sys_open p w = (r, w') \<Longrightarrow> unmutated w w'"
  by (auto simp: sys_open_def unmutated_def logcall_def mutations_def split: if_splits option.splits)

lemma unmutated_lstat: "sys_lstat p w = (r, w') \<Longrightarrow> unmutated w w'"
  by (auto simp: sys_lstat_def unmutated_def logcall_def mutations_def split: if_splits option.splits)

lemma unmutated_compare: "compare cf f1 f2 w = (r, w') \<Longrightarrow> unmutated w w'"
  unfolding compare_def
  by (auto split: prod.splits option.splits dest!: unmutated_open intro: unmutated_trans)

lemma replace2_noexec:
  "noexec cf \<Longrightarrow> replace2 cf from to w =
     Some (1, emit (Stdout (''link '' @ to @ '' to '' @ from @ newline))
               (dbg cf (Stdout (''replace2('' @ from @ '', '' @ to @ '')'' @ newline)) w))"
  by (simp add: replace2_def Let_def)

lemma replace2_noexec_unmutated:
  "noexec cf \<Longrightarrow> \<exists>w'. replace2 cf from to w = Some (1, w') \<and> unmutated w w'"
  by (simp add: replace2_noexec unmutated_def emit_def dbg_def mutations_def)

lemma replace_noexec:
  assumes "noexec cf"
  shows "\<exists>r w'. replace cf a b w = Some (r, w') \<and> unmutated w w'"
proof -
  let ?w1 = "dbg cf (Stdout (''replace'' @ newline)) w"
  have u1: "unmutated w ?w1" by (rule unmutated_dbg)
  show ?thesis
  proof (cases "i_ino a = i_ino b")
    case True
    then show ?thesis using u1 by (simp add: replace_def Let_def)
  next
    case False
    obtain c w2 where c: "compare cf (i_name a) (i_name b) ?w1 = (c, w2)" by force
    have u2: "unmutated w w2" using u1 unmutated_compare [OF c] by (rule unmutated_trans)
    show ?thesis
    proof (cases "c = 0")
      case cnz: False
      then show ?thesis using False c u2 by (simp add: replace_def Let_def)
    next
      case c0: True
      obtain sa w3 where la: "sys_lstat (i_name a) w2 = (sa, w3)" by force
      have u3: "unmutated w w3" using u2 unmutated_lstat [OF la] by (rule unmutated_trans)
      show ?thesis
      proof (cases sa)
        case None
        have "unmutated w (emit (Stderr (''Cannot restat '' @ i_name a @ newline)) w3)"
          using u3 unmutated_emit by (rule unmutated_trans)
        then show ?thesis using False c c0 la None by (simp add: replace_def Let_def)
      next
        case (Some stbuf_a)
        obtain sb w4 where lb: "sys_lstat (i_name b) w3 = (sb, w4)" by force
        have u4: "unmutated w w4" using u3 unmutated_lstat [OF lb] by (rule unmutated_trans)
        show ?thesis
        proof (cases sb)
          case None
          have "unmutated w (emit (Stderr (''Cannot restat '' @ i_name b @ newline)) w4)"
            using u4 unmutated_emit by (rule unmutated_trans)
          then show ?thesis using False c c0 la Some lb None by (simp add: replace_def Let_def)
        next
          case sbs: (Some stbuf_b)
          obtain w5 where r2: "(if st_nlink stbuf_b \<le> st_nlink stbuf_a
                        then replace2 cf (i_name a) (i_name b) w4
                        else replace2 cf (i_name b) (i_name a) w4) = Some (1, w5)"
             and u5: "unmutated w4 w5"
            using replace2_noexec_unmutated [OF assms, of "i_name a" "i_name b" w4]
              replace2_noexec_unmutated [OF assms, of "i_name b" "i_name a" w4]
            by (cases "st_nlink stbuf_b \<le> st_nlink stbuf_a") auto
          have "unmutated w w5" using u4 u5 by (rule unmutated_trans)
          then show ?thesis using False c c0 la Some lb sbs r2 by (simp add: replace_def Let_def)
        qed
      qed
    qed
  qed
qed

lemma comb2_noexec:
  assumes "noexec cf"
  shows "\<exists>l' w'. comb2 cf elem l w = Some (l', w') \<and> unmutated w w'"
proof (induction l arbitrary: w)
  case Nil
  show ?case by (simp add: unmutated_refl)
next
  case (Cons b x)
  let ?w1 = "dbg cf (Stdout (''comb2 '' @ dquote @ i_name elem @ dquote @ '' ''
                                @ dquote @ i_name b @ dquote @ newline)) w"
  obtain r w2 where r: "replace cf elem b ?w1 = Some (r, w2)" and u: "unmutated ?w1 w2"
    using replace_noexec [OF assms] by blast
  have u2: "unmutated w w2" using unmutated_dbg u by (rule unmutated_trans)
  obtain l' w3 where c: "comb2 cf elem x w2 = Some (l', w3)" and u3: "unmutated w2 w3"
    using Cons.IH by blast
  have "unmutated w w3" using u2 u3 by (rule unmutated_trans)
  then show ?case using r c by (simp add: Let_def)
qed

lemma combine_loop_noexec:
  "noexec cf \<Longrightarrow> \<exists>s w'. combine_loop cf l w = Some (s, w') \<and> unmutated w w'"
proof (induction cf l w rule: combine_loop.induct)
  case (1 cf w)
  show ?case by (simp add: unmutated_refl)
next
  case (2 cf a w)
  show ?case by (simp add: unmutated_refl)
next
  case (3 cf a b x w)
  obtain l' w1 where c: "comb2 cf a (b # x) w = Some (l', w1)" and u: "unmutated w w1"
    using comb2_noexec [OF "3.prems"] by blast
  obtain s w2 where l: "combine_loop cf l' w1 = Some (s, w2)" and u2: "unmutated w1 w2"
    using "3.IH" [OF c refl "3.prems"] by blast
  have "unmutated w w2" using u u2 by (rule unmutated_trans)
  then show ?case using c l by simp
qed

lemma combine_noexec:
  assumes "noexec cf"
  shows "\<exists>w'. combine cf l w = Some w' \<and> unmutated w w'"
proof -
  let ?w0 = "dbg cf (Stdout (''combine'' @ newline)) w"
  obtain s w' where l: "combine_loop cf l ?w0 = Some (s, w')" and u: "unmutated ?w0 w'"
    using combine_loop_noexec [OF assms] by blast
  have "unmutated w w'" using unmutated_dbg u by (rule unmutated_trans)
  then show ?thesis using l by (simp add: combine_def)
qed

lemma combine_all_noexec:
  assumes "noexec cf"
  shows "\<exists>w'. combine_all cf hs w = Some w' \<and> unmutated w w'"
proof (induction hs arbitrary: w)
  case Nil
  show ?case by (simp add: unmutated_refl)
next
  case (Cons h hs)
  obtain w1 where c: "combine cf (h_info h) w = Some w1" and u: "unmutated w w1"
    using combine_noexec [OF assms] by blast
  obtain w2 where a: "combine_all cf hs w1 = Some w2" and u2: "unmutated w1 w2"
    using Cons.IH by blast
  have "unmutated w w2" using u u2 by (rule unmutated_trans)
  then show ?case using c a by simp
qed

subsection \<open>Dry run\<close>

text \<open>
  C6. With \<^verbatim>\<open>-n\<close> (\<open>noexec\<close>), \<^verbatim>\<open>replace2\<close> prints the intended action (after the
  debugging trace, if any) and returns 1 without any system call: filesystem, call log
  and snapshots are those of before. A whole \<^verbatim>\<open>combine\<close> over a class then returns with
  no \<^verbatim>\<open>rename\<close>, \<^verbatim>\<open>link\<close> or \<^verbatim>\<open>unlink\<close> made (it still opens and stats files to
  compare them), and so does the loop of \<^verbatim>\<open>main\<close> over all classes: the mapping from
  paths to inodes is unchanged by the run.
\<close>

theorem dry_run_pure:
  assumes "noexec cf"
  shows "replace2 cf from to w =
           Some (1, emit (Stdout (''link '' @ to @ '' to '' @ from @ newline))
                     (dbg cf (Stdout (''replace2('' @ from @ '', '' @ to @ '')'' @ newline)) w))
         \<and> (\<exists>w'. replace2 cf from to w = Some (1, w') \<and> fs w' = fs w \<and> calls w' = calls w
                  \<and> snaps w' = snaps w)
         \<and> (\<exists>w'. combine cf l w = Some w' \<and> fs w' = fs w \<and> snaps w' = snaps w
                  \<and> mutations w' = mutations w)
         \<and> (\<exists>w'. combine_all cf hs w = Some w' \<and> fs w' = fs w \<and> snaps w' = snaps w
                  \<and> mutations w' = mutations w)"
proof -
  have "\<exists>w'. combine_all cf hs w = Some w' \<and> unmutated w w'"
    using combine_all_noexec [OF assms] .
  then have "\<exists>w'. combine_all cf hs w = Some w' \<and> fs w' = fs w \<and> snaps w' = snaps w
                  \<and> mutations w' = mutations w"
    by (simp add: unmutated_def)
  moreover have "\<exists>w'. combine cf l w = Some w' \<and> fs w' = fs w \<and> snaps w' = snaps w
                  \<and> mutations w' = mutations w"
    using combine_noexec [OF assms, of l w] by (simp add: unmutated_def)
  moreover have "\<exists>w'. replace2 cf from to w = Some (1, w') \<and> fs w' = fs w \<and> calls w' = calls w
                  \<and> snaps w' = snaps w"
    using assms by (simp add: replace2_noexec emit_def dbg_def)
  ultimately show ?thesis using replace2_noexec [OF assms] by blast
qed

theorem dry_run_pure_witness:
  "noexec cf_n \<and>
   replace2 cf_n ''a'' ''b'' world_ab =
     Some (1, world_ab\<lparr>out := [Stdout (''link b to a'' @ newline)]\<rparr>) \<and>
   (\<exists>w'. combine cf_n [file_a, file_b] world_ab = Some w' \<and> fs w' = fs_ab \<and> snaps w' = []
         \<and> mutations w' = []) \<and>
   (\<exists>w'. combine_all cf_n [head_r, head_a\<lparr>h_info := [file_b, file_a]\<rparr>] world_ab = Some w'
         \<and> fs w' = fs_ab \<and> snaps w' = [] \<and> mutations w' = [])"
  using dry_run_pure [of cf_n "''a''" "''b''" world_ab "[file_a, file_b]"
      "[head_r, head_a\<lparr>h_info := [file_b, file_a]\<rparr>]"]
  by (simp add: cf_n_def cf0_def world_ab_def emit_def dbg_def mutations_def)

subsection \<open>The comparator\<close>

lemma compare_loop_first_chunk:
  assumes that: "take bufsiz r1 \<noteq> take bufsiz r2"
  shows "compare_loop bufsiz r1 r2 = 1"
proof (cases "bufsiz = 0")
  case True
  then show ?thesis using that by simp
next
  case False
  then show ?thesis using that
    by (subst compare_loop.simps) (auto simp: Let_def min_def split: if_splits)
qed

lemma compare_loop_eq:
  "0 < bufsiz \<Longrightarrow> compare_loop bufsiz r1 r2 = (if r1 = r2 then 0 else 1)"
proof (induction bufsiz r1 r2 rule: compare_loop.induct)
  case (1 bufsiz r1 r2)
  let ?n1 = "min bufsiz (length r1)" and ?n2 = "min bufsiz (length r2)"
  show ?case
  proof (cases "?n1 \<noteq> ?n2")
    case True
    then have "r1 \<noteq> r2" by auto
    with True show ?thesis by (subst compare_loop.simps) (simp add: Let_def)
  next
    case same: False
    show ?thesis
    proof (cases "take ?n1 r1 \<noteq> take ?n1 r2")
      case True
      then have "r1 \<noteq> r2" by auto
      with same True show ?thesis by (subst compare_loop.simps) (simp add: Let_def)
    next
      case chunk: False
      show ?thesis
      proof (cases "?n1 > 0 \<and> ?n2 > 0")
        case True
        have IH: "compare_loop bufsiz (drop ?n1 r1) (drop ?n2 r2)
                    = (if drop ?n1 r1 = drop ?n2 r2 then 0 else 1)"
          using "1.IH" [OF refl refl _ _ True] same chunk "1.prems" by simp
        have "r1 = r2 \<longleftrightarrow> drop ?n1 r1 = drop ?n2 r2"
        proof
          assume "r1 = r2" then show "drop ?n1 r1 = drop ?n2 r2" by simp
        next
          assume d: "drop ?n1 r1 = drop ?n2 r2"
          have "take ?n1 r1 @ drop ?n1 r1 = take ?n1 r2 @ drop ?n2 r2"
            using chunk d by simp
          then show "r1 = r2" using same by (metis append_take_drop_id)
        qed
        with IH same chunk True show ?thesis
          by (subst compare_loop.simps) (simp add: Let_def)
      next
        case False
        with same "1.prems" have "r1 = []" "r2 = []" by (auto simp: min_def split: if_splits)
        then show ?thesis by (subst compare_loop.simps) (simp add: Let_def)
      qed
    qed
  qed
qed

lemma open_fs: "sys_open p w = (r, w') \<Longrightarrow> fs w' = fs w"
  by (auto simp: sys_open_def logcall_def split: if_splits option.splits)

lemma compare_result:
  "fst (compare cf f1 f2 w) =
     (case both_open f1 f2 w of
        None \<Rightarrow> - 1
      | Some (i1, i2) \<Rightarrow> compare_loop (BUFSIZ cf) (data (fs w) i1) (data (fs w) i2))"
  unfolding compare_def both_open_def
  by (auto split: prod.splits option.splits dest!: open_fs)

lemma replace_nonmatch:
  assumes "i_ino a \<noteq> i_ino b"
    and "fst (compare cf (i_name a) (i_name b) (dbg cf (Stdout (''replace'' @ newline)) w)) \<noteq> 0"
  shows "replace cf a b w =
     Some (0, snd (compare cf (i_name a) (i_name b) (dbg cf (Stdout (''replace'' @ newline)) w)))"
proof -
  obtain c w2
    where c: "compare cf (i_name a) (i_name b) (dbg cf (Stdout (''replace'' @ newline)) w) = (c, w2)"
    by force
  with assms show ?thesis by (simp add: replace_def Let_def)
qed

text \<open>
  C9. With a buffer of at least one byte, \<^verbatim>\<open>compare\<close> returns 0 exactly when both files
  can be opened and their contents are equal byte for byte, 1 exactly when both can be
  opened and the contents differ, and -1 exactly when one of the two \<^verbatim>\<open>open\<close> calls
  fails. The loop returns 1 as soon as the first chunks read differ, in length or in a
  byte, whatever follows them. Two files of length zero compare equal. The caller
  \<^verbatim>\<open>replace\<close> answers every result other than 0 with 0 ("different"): it returns normally
  and leaves the filesystem as it was.
\<close>

theorem compare_correct:
  assumes "0 < BUFSIZ cf"
  shows "(fst (compare cf f1 f2 w) = 0 \<longleftrightarrow>
            (\<exists>i1 i2. both_open f1 f2 w = Some (i1, i2) \<and> data (fs w) i1 = data (fs w) i2))
       \<and> (fst (compare cf f1 f2 w) = 1 \<longleftrightarrow>
            (\<exists>i1 i2. both_open f1 f2 w = Some (i1, i2) \<and> data (fs w) i1 \<noteq> data (fs w) i2))
       \<and> (fst (compare cf f1 f2 w) = - 1 \<longleftrightarrow> both_open f1 f2 w = None)
       \<and> (\<forall>r1 r2. take (BUFSIZ cf) r1 \<noteq> take (BUFSIZ cf) r2 \<longrightarrow>
             compare_loop (BUFSIZ cf) r1 r2 = 1)
       \<and> (\<forall>i1 i2. both_open f1 f2 w = Some (i1, i2) \<and> data (fs w) i1 = [] \<and> data (fs w) i2 = []
             \<longrightarrow> fst (compare cf f1 f2 w) = 0)
       \<and> (\<forall>a b. i_ino a \<noteq> i_ino b \<and> i_name a = f1 \<and> i_name b = f2 \<and> 
             fst (compare cf f1 f2 (dbg cf (Stdout (''replace'' @ newline)) w)) \<noteq> 0
             \<longrightarrow> (\<exists>w'. replace cf a b w = Some (0, w') \<and> fs w' = fs w))"
proof -
  have fs_cmp: "fs (snd (compare cf f1 f2 w')) = fs w'" for w'
    unfolding compare_def by (auto split: prod.splits option.splits dest!: open_fs)
  have "fs (dbg cf m w) = fs w" for m by (simp add: dbg_def emit_def)
  with fs_cmp have "fs (snd (compare cf f1 f2 (dbg cf m w))) = fs w" for m by simp
  then show ?thesis
    using assms
    by (auto simp: compare_result compare_loop_eq compare_loop_first_chunk replace_nonmatch
             split: option.splits)
qed

theorem compare_correct_witness:
  "0 < BUFSIZ cf0 \<and>
   fst (compare cf0 ''a'' ''b'' world_ab) = 0 \<and> both_open ''a'' ''b'' world_ab = Some (100, 101) \<and>
   fst (compare cf0 ''a'' ''b'' (world_ab\<lparr>fs := fs_ab\<lparr>data := (\<lambda>i. [])\<rparr>\<rparr>)) = 0 \<and>
   compare_loop (BUFSIZ cf0) ''X'' ''Y'' = 1 \<and>
   fst (compare cf0 ''a'' ''gone'' world_ab) = - 1 \<and>
   (\<exists>w'. replace cf0 file_a \<lparr>i_name = ''gone'', i_dir = None, i_ino = 7\<rparr> world_ab = Some (0, w')
         \<and> fs w' = fs_ab)"
proof -
  have b: "0 < BUFSIZ cf0" by (simp add: cf0_def)
  have o: "both_open ''a'' ''b'' world_ab = Some (100, 101)"
    by (simp add: both_open_def sys_open_def logcall_def world_ab_def fs_ab_def)
  have o0: "both_open ''a'' ''b'' (world_ab\<lparr>fs := fs_ab\<lparr>data := (\<lambda>i. [])\<rparr>\<rparr>) = Some (100, 101)"
    by (simp add: both_open_def sys_open_def logcall_def world_ab_def fs_ab_def)
  have g: "both_open ''a'' ''gone'' world_ab = None"
    by (simp add: both_open_def sys_open_def logcall_def world_ab_def fs_ab_def)
  have g': "both_open ''a'' ''gone'' (dbg cf0 (Stdout (''replace'' @ newline)) world_ab) = None"
    by (simp add: both_open_def sys_open_def logcall_def world_ab_def fs_ab_def dbg_def cf0_def)
  have n: "fst (compare cf0 ''a'' ''gone'' (dbg cf0 (Stdout (''replace'' @ newline)) world_ab)) \<noteq> 0"
    using compare_correct [OF b, of "''a''" "''gone''"] g' by simp
  show ?thesis
    using b o o0 g n
      compare_correct [OF b, of "''a''" "''b''" world_ab]
      compare_correct [OF b, of "''a''" "''b''" "world_ab\<lparr>fs := fs_ab\<lparr>data := (\<lambda>i. [])\<rparr>\<rparr>"]
      compare_correct [OF b, of "''a''" "''gone''" world_ab]
    by (simp add: file_a_def world_ab_def fs_ab_def)
qed

subsection \<open>The classifier\<close>

lemma assoc_for_nofit:
  "\<forall>c \<in> set list. \<not> fits cf hp c \<Longrightarrow> assoc_for cf hp list w = NoClass"
  by (induction list) auto

lemma assoc_for_first:
  assumes "h_info hp = i # more_i"
    and "\<forall>p \<in> set pre. \<not> fits cf hp p"
    and "fits cf hp c"
    and "debug cf \<longrightarrow> h_info c \<noteq> []"
  shows "\<exists>w'. assoc_for cf hp (pre @ c # post) w
               = Inserted (pre @ c\<lparr>h_info := i # h_info c\<rparr> # post, w')
             \<and> (\<not> debug cf \<longrightarrow> w' = w)"
  using assms(2)
proof (induction pre)
  case Nil
  show ?case using assms(1,3,4) by (cases "h_info c") auto
next
  case (Cons p pre)
  then obtain w' where "assoc_for cf hp (pre @ c # post) w
               = Inserted (pre @ c\<lparr>h_info := i # h_info c\<rparr> # post, w')"
      "\<not> debug cf \<longrightarrow> w' = w" by auto
  with Cons.prems show ?case by simp
qed

lemma fits_sym: "fits cf x y \<Longrightarrow> fits cf y x"
  by (auto simp: fits_def)

lemma fits_trans: "fits cf x y \<Longrightarrow> fits cf y z \<Longrightarrow> fits cf x z"
  by (auto simp: fits_def)

lemma fits_h_info [simp]: "fits cf x (y\<lparr>h_info := l\<rparr>) = fits cf x y"
  "fits cf (y\<lparr>h_info := l\<rparr>) x = fits cf y x"
  by (auto simp: fits_def)

lemma separate_append:
  "separate cf (xs @ ys) \<longleftrightarrow>
     separate cf xs \<and> separate cf ys \<and> (\<forall>x \<in> set xs. \<forall>y \<in> set ys. \<not> fits cf x y)"
  by (induction xs) auto

lemma assoc_for_separate:
  "separate cf list \<Longrightarrow> assoc_for cf hp list w = Inserted (l', w') \<Longrightarrow> separate cf l'"
proof (induction list arbitrary: l' w')
  case Nil
  then show ?case by simp
next
  case (Cons c cs)
  show ?case
  proof (cases "fits cf hp c")
    case True
    with Cons.prems show ?thesis
      by (auto split: list.splits if_splits)
  next
    case False
    with Cons.prems obtain l where l: "assoc_for cf hp cs w = Inserted (l, w')" "l' = c # l"
      by (auto split: scan.splits)
    then have s: "separate cf l" using Cons by simp
    have "\<forall>d \<in> set l. \<not> fits cf c d"
      using l(1) Cons.prems(1)
    proof (induction cs arbitrary: l)
      case Nil
      then show ?case by simp
    next
      case (Cons e es)
      then show ?case
        by (auto split: list.splits if_splits scan.splits)
    qed
    with s l show ?thesis by simp
  qed
qed

lemma assoc_separate:
  assumes "separate cf list" and "assoc cf hp list w = Some (l', w')"
  shows "separate cf l'"
proof (cases "assoc_for cf hp list (dbg cf (Stdout (''assoc'' @ newline)) w)")
  case (Inserted r)
  with assms show ?thesis
    by (cases r) (auto simp: assoc_def Let_def dest: assoc_for_separate)
next
  case NoClass
  have "\<forall>c \<in> set list. \<not> fits cf hp c"
  proof (rule ccontr)
    assume "\<not> (\<forall>c \<in> set list. \<not> fits cf hp c)"
    then have "assoc_for cf hp list (dbg cf (Stdout (''assoc'' @ newline)) w) \<noteq> NoClass"
      by (induction list) (auto split: list.splits scan.splits)
    with NoClass show False by simp
  qed
  then have "\<forall>c \<in> set list. \<not> fits cf \<lparr>h_info = h_info hp, h_size = h_size hp, h_dev = h_dev hp,
                 h_uid = h_uid hp, h_gid = h_gid hp, h_perms = h_perms hp\<rparr> c"
    by (simp add: fits_def)
  with NoClass assms show ?thesis by (auto simp: assoc_def Let_def)
next
  case NullDeref
  with assms show ?thesis by (simp add: assoc_def Let_def)
qed

lemma enter_files_separate:
  "separate cf list \<Longrightarrow> enter_files cf hps list w = Some (l', w') \<Longrightarrow> separate cf l'"
proof (induction hps arbitrary: list w)
  case Nil
  then show ?case by simp
next
  case (Cons hp hps)
  then show ?case by (auto split: option.splits dest: assoc_separate)
qed

lemma separate_one_fit:
  assumes "separate cf (pre @ c1 # mid @ c2 # post)"
  shows "\<not> (fits cf hp c1 \<and> fits cf hp c2)"
proof
  assume f: "fits cf hp c1 \<and> fits cf hp c2"
  then have "fits cf c1 c2" using fits_sym fits_trans by blast
  moreover have "\<not> fits cf c1 c2" using assms by (simp add: separate_append)
  ultimately show False by simp
qed

text \<open>
  C8. \<^verbatim>\<open>assoc\<close> walks the list of classes from its head and inserts the file into the
  first class that fits: the sizes and the devices are equal, and so are owner, group
  and permissions, each unless its flag says to ignore it. Every class before it, every
  class after it and every key stay as they are, so classes are never merged. When no
  class fits, a new class holding only the file is pushed on the front of the list.
  Without \<^verbatim>\<open>-d\<close> nothing is printed. In a list that \<^verbatim>\<open>assoc\<close> itself has built no two
  classes fit the same file, so the first class that fits is the only one, in whatever
  order the list is read.
\<close>

theorem assoc_first_fit:
  assumes "h_info hp = [i]" and "debug cf \<longrightarrow> (\<forall>c \<in> set list. h_info c \<noteq> [])"
  shows "(\<forall>c. fits cf hp c \<longleftrightarrow>
            h_size hp = h_size c \<and> h_dev hp = h_dev c \<and>
            (\<not> ignore_uid cf \<longrightarrow> h_uid hp = h_uid c) \<and>
            (\<not> ignore_gid cf \<longrightarrow> h_gid hp = h_gid c) \<and>
            (\<not> ignore_perms cf \<longrightarrow> h_perms hp = h_perms c))
       \<and> (\<forall>pre c post. list = pre @ c # post \<and> (\<forall>p \<in> set pre. \<not> fits cf hp p) \<and> fits cf hp c
             \<longrightarrow> map_option fst (assoc cf hp list w)
                   = Some (pre @ c\<lparr>h_info := i # h_info c\<rparr> # post))
       \<and> ((\<forall>c \<in> set list. \<not> fits cf hp c)
             \<longrightarrow> map_option fst (assoc cf hp list w) = Some (hp # list))
       \<and> (\<not> debug cf \<longrightarrow> map_option snd (assoc cf hp list w) = Some w)
       \<and> (\<forall>hps w0 wl pre c1 mid c2 post.
             enter_files cf hps [] w0 = Some (list, wl) \<and> list = pre @ c1 # mid @ c2 # post
             \<longrightarrow> \<not> (fits cf hp c1 \<and> fits cf hp c2))"
proof -
  let ?w1 = "dbg cf (Stdout (''assoc'' @ newline)) w"
  have key: "\<forall>c. fits cf hp c \<longleftrightarrow>
            h_size hp = h_size c \<and> h_dev hp = h_dev c \<and>
            (\<not> ignore_uid cf \<longrightarrow> h_uid hp = h_uid c) \<and>
            (\<not> ignore_gid cf \<longrightarrow> h_gid hp = h_gid c) \<and>
            (\<not> ignore_perms cf \<longrightarrow> h_perms hp = h_perms c)"
    by (auto simp: fits_def)
  have first: "map_option fst (assoc cf hp list w)
                   = Some (pre @ c\<lparr>h_info := i # h_info c\<rparr> # post)"
    if "list = pre @ c # post" "\<forall>p \<in> set pre. \<not> fits cf hp p" "fits cf hp c" for pre c post
  proof -
    have "debug cf \<longrightarrow> h_info c \<noteq> []" using assms(2) that(1) by simp
    from assoc_for_first [OF assms(1) that(2) that(3) this, of post ?w1]
    show ?thesis using that(1) by (auto simp: assoc_def Let_def)
  qed
  have new: "map_option fst (assoc cf hp list w) = Some (hp # list)"
    if "\<forall>c \<in> set list. \<not> fits cf hp c"
    using assoc_for_nofit [OF that, of ?w1] by (simp add: assoc_def Let_def)
  have quiet: "map_option snd (assoc cf hp list w) = Some w" if nd: "\<not> debug cf"
  proof (cases "\<forall>c \<in> set list. \<not> fits cf hp c")
    case True
    from assoc_for_nofit [OF this, of ?w1] nd show ?thesis
      by (simp add: assoc_def Let_def dbg_def)
  next
    case False
    then obtain pre c post where s: "list = pre @ c # post" "\<forall>p \<in> set pre. \<not> fits cf hp p"
        "fits cf hp c"
      using split_list_first_prop [of list "\<lambda>c. fits cf hp c"] by blast
    have "debug cf \<longrightarrow> h_info c \<noteq> []" using nd by simp
    from assoc_for_first [OF assms(1) s(2) s(3) this, of post ?w1] nd s(1)
    show ?thesis by (auto simp: assoc_def Let_def dbg_def)
  qed
  have one: "\<not> (fits cf hp c1 \<and> fits cf hp c2)"
    if "enter_files cf hps [] w0 = Some (list, wl)" "list = pre @ c1 # mid @ c2 # post"
    for hps w0 wl pre c1 mid c2 post
  proof -
    have "separate cf list" using enter_files_separate [OF _ that(1)] by simp
    then show ?thesis using that(2) separate_one_fit by blast
  qed
  show ?thesis using key first new quiet one by blast
qed

theorem assoc_first_fit_witness:
  "h_info head_b = [file_b] \<and> \<not> debug cf0 \<and>
   fits cf0 head_b head_a \<and> \<not> fits cf0 head_b head_r \<and>
   map_option fst (assoc cf0 head_b [head_r, head_a] world_ab)
     = Some [head_r, head_a\<lparr>h_info := [file_b, file_a]\<rparr>] \<and>
   map_option fst (assoc cf0 head_b [head_r] world_ab) = Some [head_b, head_r] \<and>
   map_option snd (assoc cf0 head_b [head_r, head_a] world_ab) = Some world_ab \<and>
   enter_files cf0 [head_a, head_r] [] world_ab = Some ([head_r, head_a], world_ab)"
proof -
  have h: "h_info head_b = [file_b]" by (simp add: head_b_def)
  have d: "debug cf0 \<longrightarrow> (\<forall>c \<in> set l. h_info c \<noteq> [])" for l :: "Head list"
    by (simp add: cf0_def)
  have f: "fits cf0 head_b head_a" "\<not> fits cf0 head_b head_r"
    by (simp_all add: fits_def head_a_def head_b_def head_r_def cf0_def)
  have e: "enter_files cf0 [head_a, head_r] [] world_ab = Some ([head_r, head_a], world_ab)"
    by (simp add: assoc_def fits_def head_a_def head_r_def cf0_def dbg_def)
  note T = assoc_first_fit [OF h d, of "[head_r, head_a]" world_ab]
  from T have "\<forall>pre c post. [head_r, head_a] = pre @ c # post
        \<and> (\<forall>p \<in> set pre. \<not> fits cf0 head_b p) \<and> fits cf0 head_b c
      \<longrightarrow> map_option fst (assoc cf0 head_b [head_r, head_a] world_ab)
            = Some (pre @ c\<lparr>h_info := file_b # h_info c\<rparr> # post)"
    by blast
  from this [rule_format, of "[head_r]" head_a "[]"] f
  have 1: "map_option fst (assoc cf0 head_b [head_r, head_a] world_ab)
             = Some [head_r, head_a\<lparr>h_info := [file_b, file_a]\<rparr>]"
    by (simp add: head_a_def)
  from T have 2: "map_option snd (assoc cf0 head_b [head_r, head_a] world_ab) = Some world_ab"
    by (simp add: cf0_def)
  from assoc_first_fit [OF h d, of "[head_r]" world_ab] f
  have 3: "map_option fst (assoc cf0 head_b [head_r] world_ab) = Some [head_b, head_r]"
    by simp
  show ?thesis using h f e 1 2 3 by (simp add: cf0_def)
qed

subsection \<open>Evaluating the link swap\<close>

lemmas swap_eval =
  replace2_def replace_def compare_def sys_open_def sys_lstat_def sys_rename_def sys_link_def
  sys_unlink_def logcall_def mutated_def dbg_def emit_def save_name_def sys_time_def hex4_def
  hexdigit_def Let_def newline_def dquote_def cf0_def fs_ab_def world_ab_def file_a_def
  file_b_def

lemma compare_loop_X [simp]: "compare_loop 8192 ''X'' ''X'' = 0"
  by (simp add: compare_loop.simps [of _ "''X''"] compare_loop.simps [of _ "[]"])

text \<open>
  C1. The save of \<open>b\<close> succeeds, the link fails and the restore fails too: \<open>b\<close> is gone and
  its content is left under the save name. This is the case the header comment of
  \<^verbatim>\<open>replace2\<close> calls catastrophic, yet the function returns 0, the value of a plain
  failure, and (without \<^verbatim>\<open>-d\<close>) prints nothing. When the restore succeeds, \<open>b\<close> has its
  inode back and the save name is gone, yet the function returns -1 and reports that a
  copy has been left on the save name. The two branches after the failed \<^verbatim>\<open>link\<close> are
  exchanged.
\<close>

theorem replace2_restore_branches_swapped:
  "(\<exists>w'. replace2 cf0 ''a'' ''b'' world_link_restore_fail = Some (0, w') \<and> out w' = [] \<and>
      calls w' = [(Rename ''b'' ''b12345678'', True), (Link ''a'' ''b'', False),
                  (Rename ''b12345678'' ''b'', False)] \<and>
      names (fs w') ''b'' = None \<and> names (fs w') ''b12345678'' = Some 101) \<and>
   (\<exists>w'. replace2 cf0 ''a'' ''b'' world_link_fail = Some (- 1, w') \<and>
      out w' = [Error (''failed to link b to a - copy has been left on b12345678'' @ newline)] \<and>
      calls w' = [(Rename ''b'' ''b12345678'', True), (Link ''a'' ''b'', False),
                  (Rename ''b12345678'' ''b'', True)] \<and>
      names (fs w') ''b'' = Some 101 \<and> names (fs w') ''b12345678'' = None)"
  by (simp add: swap_eval world_link_restore_fail_def world_link_fail_def)


subsection \<open>The link swap, step by step\<close>

lemma save_name_neq [simp]: "save_name to p c \<noteq> to" "to \<noteq> save_name to p c"
  by (simp_all add: save_name_def hex4_def Let_def)





subsection \<open>The direction of a merge\<close>










subsection \<open>The tie-break\<close>

lemma dbg_fields [simp]:
  "fs (dbg cf m w) = fs w" "fails (dbg cf m w) = fails w" "pid (dbg cf m w) = pid w"
  "clock (dbg cf m w) = clock w" "calls (dbg cf m w) = calls w" "snaps (dbg cf m w) = snaps w"
  by (simp_all add: dbg_def emit_def)




subsection \<open>Consolidating a class\<close>


















lemma compare_loop_XY [simp]: "compare_loop 8192 ''X'' ''Y'' = 1"
  by (simp add: compare_loop.simps [of _ "''X''"])




subsection \<open>A second run\<close>










end
